theory Spec2Isabelle
  imports Complex_Main
begin

section \<open>Data model\<close>

text \<open>
  A record is what \<^verbatim>\<open>json.load\<close> returns: a tree of dicts, lists and scalars.
  Python dicts keep insertion order, so a dict is an association list in
  insertion order.  Numbers are rationals: the rounding of Python's floats is
  not modelled.  Strings are lists of code points below 256.
\<close>

datatype json =
    JNull
  | JBool bool
  | JNum rat
  | JStr string
  | JList "json list"
  | JDict "(string \<times> json) list"

datatype py_error =
    TypeError | AttributeError | IndexError | KeyError | UnicodeDecodeError | PermissionError

text \<open>\<^verbatim>\<open>MISSING_FIELD = "MISSING INFORMATION"\<close> (utils/__init__.py).\<close>

definition MISSING_FIELD :: string where
  "MISSING_FIELD = ''MISSING INFORMATION''"

subsection \<open>Python dicts\<close>

text \<open>\<^verbatim>\<open>d[k] = v\<close>: an existing key keeps its position, a new key goes last.\<close>

fun dict_set :: "'k \<Rightarrow> 'v \<Rightarrow> ('k \<times> 'v) list \<Rightarrow> ('k \<times> 'v) list" where
  "dict_set k v [] = [(k, v)]"
| "dict_set k v ((k', v') # d) =
     (if k = k' then (k', v) # d else (k', v') # dict_set k v d)"

text \<open>\<^verbatim>\<open>dict(items)\<close>.\<close>

definition dict_of_items :: "('k \<times> 'v) list \<Rightarrow> ('k \<times> 'v) list" where
  "dict_of_items items = foldl (\<lambda>d (k, v). dict_set k v d) [] items"

definition dict_keys :: "('k \<times> 'v) list \<Rightarrow> 'k set" where
  "dict_keys d = fst ` set d"

subsection \<open>Python strings\<close>

text \<open>\<^verbatim>\<open>str(i)\<close> of a non-negative index, as an f-string renders it.\<close>

definition digit_char :: "nat \<Rightarrow> char" where
  "digit_char d = ''0123456789'' ! d"

function str_nat :: "nat \<Rightarrow> string" where
  "str_nat n = (if n < 10 then [digit_char n] else str_nat (n div 10) @ [digit_char (n mod 10)])"
  by pat_completeness auto
termination
  by (relation "measure id") auto

declare str_nat.simps [simp del]

text \<open>\<^verbatim>\<open>needle in haystack\<close> on two strings: a contiguous substring.\<close>

fun starts_with :: "string \<Rightarrow> string \<Rightarrow> bool" where
  "starts_with s [] = True"
| "starts_with [] (c # cs) = False"
| "starts_with (x # xs) (c # cs) = (x = c \<and> starts_with xs cs)"

fun contains :: "string \<Rightarrow> string \<Rightarrow> bool" where
  "contains [] needle = (needle = [])"
| "contains (x # xs) needle = (starts_with (x # xs) needle \<or> contains xs needle)"

text \<open>
  \<^verbatim>\<open>str.isspace\<close> and \<^verbatim>\<open>str.strip\<close> on code points below 256.
\<close>

definition is_space :: "char \<Rightarrow> bool" where
  "is_space c = ((of_char c :: nat) \<in> {9, 10, 11, 12, 13, 28, 29, 30, 31, 32, 133, 160})"

text \<open>
  \<^verbatim>\<open>str.lower\<close> is a parameter of the model (\<open>py_lower\<close> below): Python's lowering
  is not a map on characters, it can change the length of a string.  On strings
  of code points below 256 it is the following map, which the example
  environments use.
\<close>

definition lower_char :: "char \<Rightarrow> char" where
  "lower_char c =
     (let n = (of_char c :: nat) in
      if (65 \<le> n \<and> n \<le> 90) \<or> (192 \<le> n \<and> n \<le> 222 \<and> n \<noteq> 215)
      then char_of (n + 32) else c)"

definition lower_latin1 :: "string \<Rightarrow> string" where
  "lower_latin1 s = map lower_char s"

definition strip :: "string \<Rightarrow> string" where
  "strip s = rev (dropWhile is_space (rev (dropWhile is_space s)))"

section \<open>Path-flattener\<close>

text \<open>
  \<^verbatim>\<open>_flatten_dict\<close> (evaluation_generator.py).  \<open>flatten_items\<close> is the list
  \<^verbatim>\<open>items\<close> after the loop over \<^verbatim>\<open>d.items()\<close>; \<open>flatten_elems\<close> is the part of
  it that the inner loop over \<^verbatim>\<open>enumerate(v)\<close> contributes from position \<open>i\<close> on.
  An element of a list is recursed into only when it is a dict; every other
  element, a list too, is appended as it is.
\<close>

function flatten_items :: "(string \<times> json) list \<Rightarrow> string \<Rightarrow> (string \<times> json) list"
  and flatten_elems :: "json list \<Rightarrow> string \<Rightarrow> nat \<Rightarrow> (string \<times> json) list"
where
  "flatten_items [] parent_key = []"
| "flatten_items ((k, v) # rest) parent_key =
     (let new_key = (if parent_key \<noteq> [] then parent_key @ ''.'' @ k else k) in
      (case v of
         JDict kvs \<Rightarrow> dict_of_items (flatten_items kvs new_key)
       | JList xs \<Rightarrow> flatten_elems xs new_key 0
       | _ \<Rightarrow> [(new_key, v)])
      @ flatten_items rest parent_key)"
| "flatten_elems [] new_key i = []"
| "flatten_elems (item # more) new_key i =
     (case item of
        JDict kvs \<Rightarrow> dict_of_items (flatten_items kvs (new_key @ ''['' @ str_nat i @ '']''))
      | _ \<Rightarrow> [(new_key @ ''['' @ str_nat i @ '']'', item)])
     @ flatten_elems more new_key (Suc i)"
  by pat_completeness auto
termination
  by (relation "measure (\<lambda>x. case x of
        Inl (kvs, _) \<Rightarrow> size_list (size_prod (\<lambda>_. 0) size) kvs
      | Inr (xs, _, _) \<Rightarrow> size_list size xs)") auto

text \<open>A root that is not a dict has no \<^verbatim>\<open>items\<close> method.\<close>

definition flatten_dict :: "json \<Rightarrow> string \<Rightarrow> py_error + (string \<times> json) list" where
  "flatten_dict d parent_key =
     (case d of
        JDict kvs \<Rightarrow> Inr (dict_of_items (flatten_items kvs parent_key))
      | _ \<Rightarrow> Inl AttributeError)"

section \<open>Field comparator\<close>

text \<open>
  What the evaluator does not define itself is a parameter: the equivalence
  oracle (the model behind \<^verbatim>\<open>client.responses.create\<close>, giving the response text
  or failing), Python's \<^verbatim>\<open>str\<close> on values that are not strings, and Python's
  \<^verbatim>\<open>str.lower\<close>.
\<close>

record env =
  equiv_oracle :: "string \<Rightarrow> string \<Rightarrow> string option"
  py_repr :: "json \<Rightarrow> string"
  py_lower :: "string \<Rightarrow> string"

type_synonym calls = "(string \<times> string) list"

text \<open>
  \<^verbatim>\<open>_semantic_match\<close>.  The second component is the log of the oracle's calls;
  a failure of the oracle is caught and gives \<^verbatim>\<open>False\<close>.
\<close>

definition semantic_match :: "env \<Rightarrow> string \<Rightarrow> string \<Rightarrow> calls \<Rightarrow> bool \<times> calls" where
  "semantic_match e value1 value2 cs =
     (if \<bar>int (length value1) - int (length value2)\<bar> > 20
         \<or> min (length value1) (length value2) < 3
      then (False, cs)
      else (case equiv_oracle e value1 value2 of
              None \<Rightarrow> (False, cs @ [(value1, value2)])
            | Some result \<Rightarrow> (contains (py_lower e (strip result)) ''yes'', cs @ [(value1, value2)])))"

text \<open>
  \<^verbatim>\<open>MISSING_FIELD in value\<close>: a substring test on a string, membership in a list,
  key membership in a dict, and a \<^verbatim>\<open>TypeError\<close> on a number or a boolean.
\<close>

fun marker_in :: "json \<Rightarrow> py_error + bool" where
  "marker_in (JStr s) = Inr (contains s MISSING_FIELD)"
| "marker_in (JList xs) = Inr (JStr MISSING_FIELD \<in> set xs)"
| "marker_in (JDict kvs) = Inr (MISSING_FIELD \<in> fst ` set kvs)"
| "marker_in v = Inl TypeError"

definition py_str :: "env \<Rightarrow> json \<Rightarrow> string" where
  "py_str e v = (case v of JStr s \<Rightarrow> s | _ \<Rightarrow> py_repr e v)"

text \<open>\<^verbatim>\<open>_compare_values\<close>, with the two marker tests in the order Python evaluates them.\<close>

definition compare_values :: "env \<Rightarrow> json \<Rightarrow> json \<Rightarrow> calls \<Rightarrow> py_error + bool \<times> calls" where
  "compare_values e value1 value2 cs =
     (if value1 = JNull \<and> value2 = JNull then Inr (True, cs)
      else if value1 = JNull \<or> value2 = JNull then Inr (False, cs)
      else (case marker_in value1 of
              Inl err \<Rightarrow> Inl err
            | Inr m1 \<Rightarrow>
               (case marker_in value2 of
                  Inl err \<Rightarrow> Inl err
                | Inr m2 \<Rightarrow>
                   if m1 \<and> m2 then Inr (True, cs)
                   else if m1 \<or> m2 then Inr (False, cs)
                   else (let str1 = strip (py_lower e (py_str e value1));
                             str2 = strip (py_lower e (py_str e value2))
                         in if str1 = str2 then Inr (True, cs)
                            else Inr (semantic_match e str1 str2 cs)))))"

section \<open>Field reconciler\<close>

text \<open>
  One entry of \<^verbatim>\<open>field_results\<close>.  The key \<^verbatim>\<open>"error"\<close> is optional in the source's
  dicts; \<^verbatim>\<open>None\<close> is \<open>JNull\<close>.
\<close>

record field_result =
  ground_truth :: json
  extracted :: json
  match :: bool
  category :: string
  error :: "string option"

type_synonym field_results = "(string \<times> field_result) list"

text \<open>
  The first loop of \<^verbatim>\<open>_evaluate_data\<close>, over \<^verbatim>\<open>flat_ground_truth.items()\<close>.
  An exception of the comparator leaves the loop and the function.
\<close>

fun present_loop ::
  "env \<Rightarrow> (string \<times> json) list \<Rightarrow> (string \<times> json) list \<Rightarrow> field_results \<Rightarrow> calls
     \<Rightarrow> py_error + field_results \<times> calls"
where
  "present_loop e [] flat_extracted frs cs = Inr (frs, cs)"
| "present_loop e ((field, truth_value) # rest) flat_extracted frs cs =
     (case map_of flat_extracted field of
        Some extracted_value \<Rightarrow>
          (case compare_values e truth_value extracted_value cs of
             Inl err \<Rightarrow> Inl err
           | Inr (is_match, cs') \<Rightarrow>
               present_loop e rest flat_extracted
                 (dict_set field
                    \<lparr>ground_truth = truth_value, extracted = extracted_value,
                     match = is_match, category = ''present'', error = None\<rparr> frs) cs')
      | None \<Rightarrow>
          present_loop e rest flat_extracted
            (dict_set field
               \<lparr>ground_truth = truth_value, extracted = JNull,
                match = False, category = ''present'', error = Some ''missing_field''\<rparr> frs) cs)"

text \<open>
  The second loop, over the keys of \<^verbatim>\<open>flat_extracted\<close>; \<open>v\<close> is
  \<^verbatim>\<open>flat_extracted[field]\<close>.  The marker test here is \<^verbatim>\<open>==\<close>, not \<^verbatim>\<open>in\<close>.
\<close>

fun extra_loop ::
  "(string \<times> json) list \<Rightarrow> (string \<times> json) list \<Rightarrow> field_results \<Rightarrow> field_results"
where
  "extra_loop [] flat_ground_truth frs = frs"
| "extra_loop ((field, v) # rest) flat_ground_truth frs =
     (if field \<notin> dict_keys flat_ground_truth then
        (if v = JStr MISSING_FIELD then
           extra_loop rest flat_ground_truth
             (dict_set field
                \<lparr>ground_truth = JStr MISSING_FIELD, extracted = v,
                 match = True, category = ''missing'', error = None\<rparr> frs)
         else
           extra_loop rest flat_ground_truth
             (dict_set field
                \<lparr>ground_truth = JNull, extracted = v,
                 match = False, category = ''extra'', error = Some ''extra_field''\<rparr> frs))
      else extra_loop rest flat_ground_truth frs)"

section \<open>Metrics aggregator\<close>

record category_metrics =
  total :: nat
  matched :: nat
  accuracy :: rat

record metrics =
  overall_accuracy :: rat
  precision :: rat
  recall :: rat
  f1_score :: rat
  true_positives :: nat
  false_positives :: nat
  false_negatives :: nat
  total_fields :: nat
  missing_fields_count :: nat
  categories :: "(string \<times> category_metrics) list"

text \<open>
  The counters of \<^verbatim>\<open>_calculate_metrics\<close>: \<open>(tp, fp, fn, categories)\<close>, where
  \<open>categories\<close> maps a category to \<open>(total, matched)\<close>.
\<close>

type_synonym counters = "nat \<times> nat \<times> nat \<times> (string \<times> nat \<times> nat) list"

definition init_counters :: counters where
  "init_counters = (0, 0, 0, [(''present'', 0, 0), (''extra'', 0, 0), (''missing'', 0, 0)])"

text \<open>
  One iteration of the loop over \<^verbatim>\<open>field_results.items()\<close>.  Every field result
  has its \<^verbatim>\<open>"match"\<close>, so the default of \<^verbatim>\<open>result.get("match", False)\<close> is never used.
\<close>

fun count_result :: "counters \<Rightarrow> field_result \<Rightarrow> counters" where
  "count_result (tp, fp, fn, cats) result =
     (let cat = category result;
          is_match = match result;
          cats' = (if cat \<in> dict_keys cats
                   then map (\<lambda>(c, tot, mat).
                               if c = cat then (c, tot + 1, if is_match then mat + 1 else mat)
                               else (c, tot, mat)) cats
                   else cats)
      in if cat = ''present'' then
           (if error result = Some ''missing_field'' then (tp, fp, fn + 1, cats')
            else if is_match then (tp + 1, fp, fn, cats')
            else (tp, fp + 1, fn, cats'))
         else if cat = ''extra'' then (tp, fp + 1, fn, cats')
         else (tp, fp, fn, cats'))"

definition calculate_metrics :: "field_results \<Rightarrow> string list option \<Rightarrow> metrics" where
  "calculate_metrics frs missing =
     (case foldl count_result init_counters (map snd frs) of
        (tp, fp, fn, cats) \<Rightarrow>
          let p = (if tp + fp > 0 then of_nat tp / of_nat (tp + fp) else 0);
              r = (if tp + fn > 0 then of_nat tp / of_nat (tp + fn) else 0);
              f1 = (if p + r > 0 then 2 * (p * r) / (p + r) else 0);
              total_judgments = tp + fp + fn;
              acc = (if total_judgments > 0 then of_nat tp / of_nat total_judgments else 0)
          in \<lparr>overall_accuracy = acc, precision = p, recall = r, f1_score = f1,
              true_positives = tp, false_positives = fp, false_negatives = fn,
              total_fields = sum_list (map (\<lambda>(c, tot, mat). tot) cats),
              missing_fields_count = (case missing of None \<Rightarrow> 0 | Some ms \<Rightarrow> length ms),
              categories =
                map (\<lambda>(c, tot, mat).
                       (c, \<lparr>total = tot, matched = mat,
                            accuracy = (if tot > 0 then of_nat mat / of_nat tot else 0)\<rparr>)) cats\<rparr>)"

record evaluation =
  metrics :: metrics
  field_results :: field_results
  missing_fields :: "string list"

text \<open>
  \<^verbatim>\<open>_evaluate_data\<close>.  \<^verbatim>\<open>missing_fields or []\<close> turns \<^verbatim>\<open>None\<close> into the empty list.
\<close>

definition evaluate_data ::
  "env \<Rightarrow> json \<Rightarrow> json \<Rightarrow> string list option \<Rightarrow> calls \<Rightarrow> py_error + evaluation \<times> calls"
where
  "evaluate_data e ground_truth_rec extracted_rec missing cs =
     (let missing' = (case missing of None \<Rightarrow> [] | Some ms \<Rightarrow> ms) in
      case flatten_dict ground_truth_rec [] of
        Inl err \<Rightarrow> Inl err
      | Inr flat_ground_truth \<Rightarrow>
         (case flatten_dict extracted_rec [] of
            Inl err \<Rightarrow> Inl err
          | Inr flat_extracted \<Rightarrow>
             (case present_loop e flat_ground_truth flat_extracted [] cs of
                Inl err \<Rightarrow> Inl err
              | Inr (frs1, cs') \<Rightarrow>
                 (let frs = extra_loop flat_extracted flat_ground_truth frs1
                  in Inr (\<lparr>metrics = calculate_metrics frs (Some missing'),
                           field_results = frs,
                           missing_fields = missing'\<rparr>, cs')))))"

section \<open>Missing-field stripper\<close>

text \<open>
  \<^verbatim>\<open>del data[index]\<close> and \<^verbatim>\<open>del data[key]\<close>, with the exceptions Python raises.
\<close>

definition del_index :: "nat \<Rightarrow> 'a list \<Rightarrow> py_error + 'a list" where
  "del_index i xs = (if i < length xs then Inr (take i xs @ drop (Suc i) xs) else Inl IndexError)"

fun delete_indices :: "nat list \<Rightarrow> 'a list \<Rightarrow> py_error + 'a list" where
  "delete_indices [] xs = Inr xs"
| "delete_indices (i # others) xs =
     (case del_index i xs of Inl err \<Rightarrow> Inl err | Inr xs' \<Rightarrow> delete_indices others xs')"

definition del_key :: "'k \<Rightarrow> ('k \<times> 'v) list \<Rightarrow> py_error + ('k \<times> 'v) list" where
  "del_key k d = (if k \<in> dict_keys d then Inr (filter (\<lambda>kv. fst kv \<noteq> k) d) else Inl KeyError)"

fun delete_keys :: "'k list \<Rightarrow> ('k \<times> 'v) list \<Rightarrow> py_error + ('k \<times> 'v) list" where
  "delete_keys [] d = Inr d"
| "delete_keys (k # others) d =
     (case del_key k d of Inl err \<Rightarrow> Inl err | Inr d' \<Rightarrow> delete_keys others d')"

text \<open>\<^verbatim>\<open>sorted(indices_to_delete, reverse=True)\<close>.\<close>

definition sorted_reverse :: "nat list \<Rightarrow> nat list" where
  "sorted_reverse idxs = rev (sort idxs)"

definition is_container :: "json \<Rightarrow> bool" where
  "is_container v = (case v of JDict kvs \<Rightarrow> True | JList xs \<Rightarrow> True | _ \<Rightarrow> False)"

text \<open>
  The body of \<^verbatim>\<open>_find_missing_fields\<close> once \<^verbatim>\<open>missing_fields\<close> is a list, which is
  how every recursive call enters it.  The function works in place: the first
  component of the result is the object \<^verbatim>\<open>data\<close> after the call (a record read
  from a file is a tree, no object is shared), the second is the list
  \<^verbatim>\<open>missing_fields\<close> after the call.  \<open>scan_dict\<close> and \<open>scan_list\<close> are the first
  loops over a dict and over a list (from position \<open>i\<close> on); their third component is
  \<^verbatim>\<open>keys_to_delete\<close> and \<^verbatim>\<open>indices_to_delete\<close>.  The copy in
  conversation_generator.py runs the same two loops and the same deletions on
  \<^verbatim>\<open>data\<close>; it returns the list instead of the object.
\<close>

function find_missing_rec :: "json \<Rightarrow> string \<Rightarrow> string list \<Rightarrow> py_error + json \<times> string list"
  and scan_dict :: "(string \<times> json) list \<Rightarrow> string \<Rightarrow> string list
        \<Rightarrow> py_error + (string \<times> json) list \<times> string list \<times> string list"
  and scan_list :: "json list \<Rightarrow> string \<Rightarrow> nat \<Rightarrow> string list
        \<Rightarrow> py_error + json list \<times> string list \<times> nat list"
where
  "find_missing_rec data path mf =
     (case data of
        JDict kvs \<Rightarrow>
          (case scan_dict kvs path mf of
             Inl err \<Rightarrow> Inl err
           | Inr (kvs', mf', keys_to_delete) \<Rightarrow>
               (case delete_keys keys_to_delete kvs' of
                  Inl err \<Rightarrow> Inl err
                | Inr d \<Rightarrow> Inr (JDict d, mf')))
      | JList xs \<Rightarrow>
          (case scan_list xs path 0 mf of
             Inl err \<Rightarrow> Inl err
           | Inr (xs', mf', indices_to_delete) \<Rightarrow>
               (case delete_indices (sorted_reverse indices_to_delete) xs' of
                  Inl err \<Rightarrow> Inl err
                | Inr ys \<Rightarrow> Inr (JList ys, mf')))
      | _ \<Rightarrow> Inr (data, mf))"
| "scan_dict [] path mf = Inr ([], mf, [])"
| "scan_dict ((key, v) # rest) path mf =
     (let current_path = (if path \<noteq> [] then path @ ''.'' @ key else key) in
      if is_container v then
        (case find_missing_rec v current_path mf of
           Inl err \<Rightarrow> Inl err
         | Inr (v', mf1) \<Rightarrow>
             (case scan_dict rest path mf1 of
                Inl err \<Rightarrow> Inl err
              | Inr (rest', mf2, ks) \<Rightarrow> Inr ((key, v') # rest', mf2, ks)))
      else if v = JStr MISSING_FIELD then
        (case scan_dict rest path (mf @ [current_path]) of
           Inl err \<Rightarrow> Inl err
         | Inr (rest', mf2, ks) \<Rightarrow> Inr ((key, v) # rest', mf2, key # ks))
      else
        (case scan_dict rest path mf of
           Inl err \<Rightarrow> Inl err
         | Inr (rest', mf2, ks) \<Rightarrow> Inr ((key, v) # rest', mf2, ks)))"
| "scan_list [] path i mf = Inr ([], mf, [])"
| "scan_list (item # others) path i mf =
     (let current_path = path @ ''['' @ str_nat i @ '']'' in
      if is_container item then
        (case find_missing_rec item current_path mf of
           Inl err \<Rightarrow> Inl err
         | Inr (item', mf1) \<Rightarrow>
             (case scan_list others path (Suc i) mf1 of
                Inl err \<Rightarrow> Inl err
              | Inr (others', mf2, idxs) \<Rightarrow> Inr (item' # others', mf2, idxs)))
      else if item = JStr MISSING_FIELD then
        (case scan_list others path (Suc i) (mf @ [current_path]) of
           Inl err \<Rightarrow> Inl err
         | Inr (others', mf2, idxs) \<Rightarrow> Inr (item # others', mf2, i # idxs))
      else
        (case scan_list others path (Suc i) mf of
           Inl err \<Rightarrow> Inl err
         | Inr (others', mf2, idxs) \<Rightarrow> Inr (item # others', mf2, idxs)))"
  by pat_completeness auto
termination
  by (relation "measure (\<lambda>x. case x of
        Inl (d, _, _) \<Rightarrow> 2 * size d + 1
      | Inr (Inl (kvs, _, _)) \<Rightarrow> 2 * size_list (size_prod (\<lambda>_. 0) size) kvs + 2
      | Inr (Inr (xs, _, _, _)) \<Rightarrow> 2 * size_list size xs + 2)") auto

text \<open>
  What a call does to the caller: the object the caller passed, as it is after
  the call; the value returned; and the list \<^verbatim>\<open>missing_fields\<close> after the call.
\<close>

record 'r call_outcome =
  caller_data :: json
  returned :: 'r
  missing_after :: "string list"

text \<open>
  \<^verbatim>\<open>Evaluator._find_missing_fields\<close>: the deep copy is taken only when
  \<^verbatim>\<open>missing_fields\<close> is \<^verbatim>\<open>None\<close>; with a list the function works on the caller's
  object itself.
\<close>

definition find_missing_fields ::
  "json \<Rightarrow> string \<Rightarrow> string list option \<Rightarrow> py_error + json call_outcome"
where
  "find_missing_fields data path missing =
     (case missing of
        None \<Rightarrow>
          (case find_missing_rec data path [] of
             Inl err \<Rightarrow> Inl err
           | Inr (copy', mf') \<Rightarrow>
               Inr \<lparr>caller_data = data, returned = copy', missing_after = mf'\<rparr>)
      | Some mf \<Rightarrow>
          (case find_missing_rec data path mf of
             Inl err \<Rightarrow> Inl err
           | Inr (data', mf') \<Rightarrow>
               Inr \<lparr>caller_data = data', returned = data', missing_after = mf'\<rparr>))"

text \<open>
  The call in \<^verbatim>\<open>Evaluator.generate\<close>:
  \<^verbatim>\<open>missing_fields = []; self._find_missing_fields(ground_truth, missing_fields=missing_fields)\<close>.
\<close>

definition generate_strip :: "json \<Rightarrow> py_error + json call_outcome" where
  "generate_strip ground_truth_rec = find_missing_fields ground_truth_rec [] (Some [])"

text \<open>
  \<^verbatim>\<open>ConversationGenerator._find_missing_fields\<close> always works on the object it is
  given and returns the list; \<^verbatim>\<open>process_ground_truth\<close> hands it a deep copy and
  returns the copy with the list.
\<close>

definition conv_find_missing_fields ::
  "json \<Rightarrow> string \<Rightarrow> string list option \<Rightarrow> py_error + (string list) call_outcome"
where
  "conv_find_missing_fields data path missing =
     (case find_missing_rec data path (case missing of None \<Rightarrow> [] | Some mf \<Rightarrow> mf) of
        Inl err \<Rightarrow> Inl err
      | Inr (data', mf') \<Rightarrow>
          Inr \<lparr>caller_data = data', returned = mf', missing_after = mf'\<rparr>)"

definition process_ground_truth ::
  "json \<Rightarrow> py_error + (json \<times> string list) call_outcome"
where
  "process_ground_truth ground_truth_rec =
     (case conv_find_missing_fields ground_truth_rec [] None of
        Inl err \<Rightarrow> Inl err
      | Inr out \<Rightarrow>
          Inr \<lparr>caller_data = ground_truth_rec,
               returned = (caller_data out, returned out),
               missing_after = returned out\<rparr>)"

section \<open>Aggregator across runs\<close>









section \<open>Notions of the specification\<close>

text \<open>The counts the specification defines on a list of field results.\<close>

definition is_tp :: "field_result \<Rightarrow> bool" where
  "is_tp r = (category r = ''present'' \<and> match r \<and> error r \<noteq> Some ''missing_field'')"

definition is_fn :: "field_result \<Rightarrow> bool" where
  "is_fn r = (category r = ''present'' \<and> error r = Some ''missing_field'')"

definition is_fp_present :: "field_result \<Rightarrow> bool" where
  "is_fp_present r = (category r = ''present'' \<and> \<not> match r \<and> error r \<noteq> Some ''missing_field'')"

definition is_extra :: "field_result \<Rightarrow> bool" where
  "is_extra r = (category r = ''extra'')"

text \<open>
  The canonical path grammar in the specification's words: \<open>parent.key\<close>, or
  \<open>key\<close> at the root; \<open>parent[index]\<close>, or \<open>[index]\<close> at the root.  The root has no
  path (\<open>None\<close>).
\<close>

fun join_key :: "string option \<Rightarrow> string \<Rightarrow> string" where
  "join_key None k = k"
| "join_key (Some p) k = p @ ''.'' @ k"

fun join_index :: "string option \<Rightarrow> nat \<Rightarrow> string" where
  "join_index None i = ''['' @ str_nat i @ '']''"
| "join_index (Some p) i = p @ ''['' @ str_nat i @ '']''"

text \<open>
  The flattening of the specification: every map and every sequence is
  recursed into, wherever it stands, and only scalars are leaves.
\<close>

function spec_leaves :: "string option \<Rightarrow> json \<Rightarrow> (string \<times> json) list"
  and spec_leaves_entries :: "string option \<Rightarrow> (string \<times> json) list \<Rightarrow> (string \<times> json) list"
  and spec_leaves_elems :: "string option \<Rightarrow> nat \<Rightarrow> json list \<Rightarrow> (string \<times> json) list"
where
  "spec_leaves path v =
     (case v of
        JDict kvs \<Rightarrow> spec_leaves_entries path kvs
      | JList xs \<Rightarrow> spec_leaves_elems path 0 xs
      | _ \<Rightarrow> [(case path of None \<Rightarrow> [] | Some p \<Rightarrow> p, v)])"
| "spec_leaves_entries path [] = []"
| "spec_leaves_entries path ((k, v) # rest) =
     spec_leaves (Some (join_key path k)) v @ spec_leaves_entries path rest"
| "spec_leaves_elems path i [] = []"
| "spec_leaves_elems path i (x # xs) =
     spec_leaves (Some (join_index path i)) x @ spec_leaves_elems path (Suc i) xs"
  by pat_completeness auto
termination
  by (relation "measure (\<lambda>x. case x of
        Inl (_, v) \<Rightarrow> 2 * size v + 1
      | Inr (Inl (_, kvs)) \<Rightarrow> 2 * size_list (size_prod (\<lambda>_. 0) size) kvs + 2
      | Inr (Inr (_, _, xs)) \<Rightarrow> 2 * size_list size xs + 2)") auto

definition spec_flatten :: "json \<Rightarrow> (string \<times> json) list" where
  "spec_flatten r = dict_of_items (spec_leaves None r)"

definition is_scalar :: "json \<Rightarrow> bool" where
  "is_scalar v = (\<not> is_container v)"

text \<open>
  Shapes of records: \<open>plain\<close> has no sequence directly inside a sequence;
  \<open>marker_free\<close> has no leaf equal to the marker; \<open>wf_json\<close> has distinct keys in
  every map, as every Python dict has.
\<close>

function plain :: "json \<Rightarrow> bool"
  and plain_entries :: "(string \<times> json) list \<Rightarrow> bool"
  and plain_elems :: "json list \<Rightarrow> bool"
where
  "plain v = (case v of JDict kvs \<Rightarrow> plain_entries kvs | JList xs \<Rightarrow> plain_elems xs | _ \<Rightarrow> True)"
| "plain_entries [] = True"
| "plain_entries ((k, v) # rest) = (plain v \<and> plain_entries rest)"
| "plain_elems [] = True"
| "plain_elems (x # xs) = ((case x of JList ys \<Rightarrow> False | _ \<Rightarrow> plain x) \<and> plain_elems xs)"
  by pat_completeness auto
termination
  by (relation "measure (\<lambda>x. case x of
        Inl v \<Rightarrow> 2 * size v + 1
      | Inr (Inl kvs) \<Rightarrow> 2 * size_list (size_prod (\<lambda>_. 0) size) kvs + 2
      | Inr (Inr xs) \<Rightarrow> 2 * size_list size xs + 2)") auto

text \<open>The effect of a list of items on a dict: \<^verbatim>\<open>for k, v in items: d[k] = v\<close>.\<close>

definition apply_items :: "('k \<times> 'v) list \<Rightarrow> ('k \<times> 'v) list \<Rightarrow> ('k \<times> 'v) list" where
  "apply_items d items = foldl (\<lambda>d (k, v). dict_set k v d) d items"







text \<open>
  Values on which \<^verbatim>\<open>MISSING_FIELD in value\<close> is defined: everything but numbers
  and booleans (\<^verbatim>\<open>None\<close> never reaches the test).
\<close>

definition str_like :: "json \<Rightarrow> bool" where
  "str_like v = (case v of JNum x \<Rightarrow> False | JBool b \<Rightarrow> False | _ \<Rightarrow> True)"

text \<open>
  Environments for the examples.  In \<open>yes_env\<close> the oracle always answers
  \<^verbatim>\<open>YES\<close>.  In \<open>no_env\<close> it always answers \<^verbatim>\<open>NO\<close>, and \<open>py_repr\<close> is Python's \<^verbatim>\<open>str\<close>
  on the two lists the example with it compares: \<^verbatim>\<open>str([{}])\<close> and
  \<^verbatim>\<open>str([{'b': []}])\<close>.
\<close>

definition yes_env :: env where
  "yes_env = \<lparr>equiv_oracle = (\<lambda>a b. Some ''YES''), py_repr = (\<lambda>v. []),
               py_lower = lower_latin1\<rparr>"

definition no_env :: env where
  "no_env = \<lparr>equiv_oracle = (\<lambda>a b. Some ''NO''),
              py_repr = (\<lambda>v. if v = JList [JDict []] then ''[{}]''
                            else ''[{'' @ [CHR 0x27] @ ''b'' @ [CHR 0x27] @ '': []}]''),
              py_lower = lower_latin1\<rparr>"

text \<open>
  A record without the empty containers the flattener passes by: in every dict
  the flattener enters, the entries whose value is an empty dict or an empty
  list are removed.
\<close>

function prune_items :: "(string \<times> json) list \<Rightarrow> (string \<times> json) list"
  and prune_elems :: "json list \<Rightarrow> json list"
where
  "prune_items [] = []"
| "prune_items ((k, v) # rest) =
     (case v of
        JDict kvs \<Rightarrow> if kvs = [] then prune_items rest
                     else (k, JDict (prune_items kvs)) # prune_items rest
      | JList xs \<Rightarrow> if xs = [] then prune_items rest
                    else (k, JList (prune_elems xs)) # prune_items rest
      | _ \<Rightarrow> (k, v) # prune_items rest)"
| "prune_elems [] = []"
| "prune_elems (x # xs) =
     (case x of JDict kvs \<Rightarrow> JDict (prune_items kvs) | _ \<Rightarrow> x) # prune_elems xs"
  by pat_completeness auto
termination
  by (relation "measure (\<lambda>x. case x of
        Inl kvs \<Rightarrow> size_list (size_prod (\<lambda>_. 0) size) kvs
      | Inr xs \<Rightarrow> size_list size xs)") auto

definition prune :: "json \<Rightarrow> json" where
  "prune r = (case r of JDict kvs \<Rightarrow> JDict (prune_items kvs) | _ \<Rightarrow> r)"

text \<open>
  For the deletions in a list: the positions (counted from 0, before any
  deletion) of the elements equal to the marker, and the elements of \<open>ys\<close> that
  stand where \<open>xs\<close> has no marker.
\<close>

definition marker_positions :: "json list \<Rightarrow> nat list" where
  "marker_positions xs = filter (\<lambda>j. xs ! j = JStr MISSING_FIELD) [0..<length xs]"


text \<open>The keys of a dict whose value is the marker itself, in order.\<close>

definition marker_keys :: "(string \<times> json) list \<Rightarrow> string list" where
  "marker_keys kvs = map fst (filter (\<lambda>kv. snd kv = JStr MISSING_FIELD) kvs)"


section \<open>Verification: metrics of one run\<close>

lemma count_result_counts:
  "\<exists>cats'. count_result (tp, fp, fn, cats) r =
     (tp + (if is_tp r then 1 else 0),
      fp + (if is_fp_present r then 1 else 0) + (if is_extra r then 1 else 0),
      fn + (if is_fn r then 1 else 0), cats')"
  by (simp add: is_tp_def is_fn_def is_fp_present_def is_extra_def Let_def)

lemma foldl_count_result:
  "\<exists>cats'. foldl count_result (tp, fp, fn, cats) rs =
     (tp + length (filter is_tp rs),
      fp + length (filter is_fp_present rs) + length (filter is_extra rs),
      fn + length (filter is_fn rs), cats')"
proof (induction rs arbitrary: tp fp fn cats)
  case Nil
  then show ?case by simp
next
  case (Cons r rs)
  obtain c1 where s: "count_result (tp, fp, fn, cats) r =
     (tp + (if is_tp r then 1 else 0),
      fp + (if is_fp_present r then 1 else 0) + (if is_extra r then 1 else 0),
      fn + (if is_fn r then 1 else 0), c1)"
    using count_result_counts by blast
  from Cons.IH[of "tp + (if is_tp r then 1 else 0)"
      "fp + (if is_fp_present r then 1 else 0) + (if is_extra r then 1 else 0)"
      "fn + (if is_fn r then 1 else 0)" c1]
  show ?case unfolding foldl_Cons s by auto
qed

text \<open>
  Claim C2.  For every mapping of field results, \<open>false_positives\<close> is the number
  of present results with no match and no \<open>missing_field\<close> tag plus the number of
  extra results (and \<open>true_positives\<close>, \<open>false_negatives\<close> are the counts the
  specification gives); precision is \<open>tp / (tp + fp)\<close>, recall is \<open>tp / (tp + fn)\<close>,
  f1 is \<open>2 p r / (p + r)\<close> and the overall accuracy is \<open>tp / (tp + fp + fn)\<close>, each \<open>0\<close>
  when its denominator is \<open>0\<close>; the function is total, and on the empty mapping
  the four ratios are \<open>0\<close>.  The ratios are exact rationals here.
\<close>

theorem calculate_metrics_formulas:
  fixes frs :: field_results and missing :: "string list option"
  defines "rs \<equiv> map snd frs"
  defines "m \<equiv> calculate_metrics frs missing"
  defines "tp \<equiv> true_positives m" and "fp \<equiv> false_positives m" and "fn \<equiv> false_negatives m"
  shows "fp = length (filter (\<lambda>r. category r = ''present'' \<and> \<not> match r
                                 \<and> error r \<noteq> Some ''missing_field'') rs)
              + length (filter (\<lambda>r. category r = ''extra'') rs)
    \<and> tp = length (filter (\<lambda>r. category r = ''present'' \<and> match r
                                 \<and> error r \<noteq> Some ''missing_field'') rs)
    \<and> fn = length (filter (\<lambda>r. category r = ''present''
                                 \<and> error r = Some ''missing_field'') rs)
    \<and> precision m = (if tp + fp > 0 then of_nat tp / of_nat (tp + fp) else 0)
    \<and> recall m = (if tp + fn > 0 then of_nat tp / of_nat (tp + fn) else 0)
    \<and> f1_score m = (if precision m + recall m > 0
                     then 2 * precision m * recall m / (precision m + recall m) else 0)
    \<and> overall_accuracy m = (if tp + fp + fn > 0 then of_nat tp / of_nat (tp + fp + fn) else 0)
    \<and> (frs = [] \<longrightarrow> precision m = 0 \<and> recall m = 0 \<and> f1_score m = 0 \<and> overall_accuracy m = 0)"
proof -
  obtain cats' where f: "foldl count_result init_counters rs =
     (length (filter is_tp rs), length (filter is_fp_present rs) + length (filter is_extra rs),
      length (filter is_fn rs), cats')"
    using foldl_count_result[of 0 0 0 _ rs] unfolding init_counters_def by auto
  have m: "m = calculate_metrics frs missing" by (simp add: m_def)
  have 1: "fp = length (filter (\<lambda>r. category r = ''present'' \<and> \<not> match r
                                 \<and> error r \<noteq> Some ''missing_field'') rs)
              + length (filter (\<lambda>r. category r = ''extra'') rs)"
    unfolding fp_def m calculate_metrics_def using f
    by (simp add: rs_def[symmetric] Let_def is_fp_present_def[abs_def] is_extra_def[abs_def])
  have 2: "tp = length (filter (\<lambda>r. category r = ''present'' \<and> match r
                                 \<and> error r \<noteq> Some ''missing_field'') rs)"
    unfolding tp_def m calculate_metrics_def using f
    by (simp add: rs_def[symmetric] Let_def is_tp_def[abs_def])
  have 3: "fn = length (filter (\<lambda>r. category r = ''present''
                                 \<and> error r = Some ''missing_field'') rs)"
    unfolding fn_def m calculate_metrics_def using f
    by (simp add: rs_def[symmetric] Let_def is_fn_def[abs_def])
  have 4: "precision m = (if tp + fp > 0 then of_nat tp / of_nat (tp + fp) else 0)"
    unfolding tp_def fp_def m calculate_metrics_def
    by (simp add: Let_def split: prod.splits)
  have 5: "recall m = (if tp + fn > 0 then of_nat tp / of_nat (tp + fn) else 0)"
    unfolding tp_def fn_def m calculate_metrics_def
    by (simp add: Let_def split: prod.splits)
  have 6: "f1_score m = (if precision m + recall m > 0
                     then 2 * precision m * recall m / (precision m + recall m) else 0)"
    unfolding m calculate_metrics_def
    by (simp add: Let_def split: prod.splits)
  have 7: "overall_accuracy m = (if tp + fp + fn > 0 then of_nat tp / of_nat (tp + fp + fn) else 0)"
    unfolding tp_def fp_def fn_def m calculate_metrics_def
    by (simp add: Let_def split: prod.splits)
  have 8: "frs = [] \<longrightarrow> precision m = 0 \<and> recall m = 0 \<and> f1_score m = 0 \<and> overall_accuracy m = 0"
    unfolding m calculate_metrics_def init_counters_def by (simp add: Let_def)
  from 1 2 3 4 5 6 7 8 show ?thesis by blast
qed

theorem calculate_metrics_formulas_witness:
  "precision (calculate_metrics [] None) = 0 \<and> recall (calculate_metrics [] None) = 0
   \<and> f1_score (calculate_metrics [] None) = 0 \<and> overall_accuracy (calculate_metrics [] None) = 0
   \<and> false_positives (calculate_metrics [] None) = 0"
  using calculate_metrics_formulas[of "[]" None] by simp

section \<open>Verification: dicts\<close>

lemma keys_dict_set: "fst ` set (dict_set k v d) = insert k (fst ` set d)"
proof (induction d)
  case Nil
  show ?case by simp
next
  case (Cons a d)
  obtain k' v' where a: "a = (k', v')" by (cases a)
  show ?case by (cases "k = k'") (simp_all add: Cons.IH a insert_commute)
qed

lemma dict_keys_dict_set: "dict_keys (dict_set k v d) = insert k (dict_keys d)"
  by (simp add: dict_keys_def keys_dict_set)

lemma dict_keys_Cons: "dict_keys ((k, v) # d) = insert k (dict_keys d)"
  by (simp add: dict_keys_def)

lemma dict_keys_Nil: "dict_keys [] = {}"
  by (simp add: dict_keys_def)

lemma distinct_dict_set: "distinct (map fst d) \<Longrightarrow> distinct (map fst (dict_set k v d))"
proof (induction d)
  case Nil
  show ?case by simp
next
  case (Cons a d)
  obtain k' v' where a: "a = (k', v')" by (cases a)
  from Cons show ?case by (cases "k = k'") (simp_all add: a keys_dict_set)
qed

lemma map_of_dict_set: "map_of (dict_set k v d) = (map_of d)(k \<mapsto> v)"
proof (induction d)
  case Nil
  show ?case by simp
next
  case (Cons a d)
  obtain k' v' where a: "a = (k', v')" by (cases a)
  show ?case by (cases "k = k'") (auto simp: Cons.IH a)
qed

lemma set_dict_set: "pr \<in> set (dict_set k v d) \<Longrightarrow> pr \<in> set d \<or> pr = (k, v)"
proof (induction d)
  case Nil
  then show ?case by simp
next
  case (Cons a d)
  obtain k' v' where a: "a = (k', v')" by (cases a)
  from Cons show ?case by (cases "k = k'") (auto simp: a)
qed

lemma foldl_dict_set_keys:
  "fst ` set (foldl (\<lambda>d (k, v). dict_set k v d) d0 xs) = fst ` set d0 \<union> fst ` set xs"
  by (induction xs arbitrary: d0) (auto simp: case_prod_beta keys_dict_set)

lemma foldl_dict_set_distinct:
  "distinct (map fst d0) \<Longrightarrow> distinct (map fst (foldl (\<lambda>d (k, v). dict_set k v d) d0 xs))"
  by (induction xs arbitrary: d0) (auto simp: case_prod_beta distinct_dict_set)

lemma dict_of_items_keys: "dict_keys (dict_of_items xs) = fst ` set xs"
  by (simp add: dict_of_items_def foldl_dict_set_keys dict_keys_def)

lemma dict_of_items_distinct: "distinct (map fst (dict_of_items xs))"
  by (simp add: dict_of_items_def foldl_dict_set_distinct)

lemma flatten_dict_distinct: "flatten_dict r p = Inr fm \<Longrightarrow> distinct (map fst fm)"
  by (auto simp: flatten_dict_def dict_of_items_distinct split: json.splits)

section \<open>Verification: the two loops of the reconciler\<close>

lemma present_loop_props:
  "present_loop e xs fe frs cs = Inr (frs', cs') \<Longrightarrow>
     dict_keys frs' = dict_keys frs \<union> dict_keys xs
     \<and> (distinct (map fst frs) \<longrightarrow> distinct (map fst frs'))
     \<and> (\<forall>pr \<in> set frs'. pr \<in> set frs \<or> (fst pr \<in> dict_keys xs \<and> category (snd pr) = ''present''))"
proof (induction xs arbitrary: frs cs)
  case Nil
  then show ?case by (simp add: dict_keys_Nil)
next
  case (Cons a xs)
  obtain field tv where a: "a = (field, tv)" by (cases a)
  have step: "\<exists>r cs1. category r = ''present''
      \<and> present_loop e xs fe (dict_set field r frs) cs1 = Inr (frs', cs')"
  proof (cases "map_of fe field")
    case None
    let ?r = "\<lparr>ground_truth = tv, extracted = JNull, match = False,
               category = ''present'', error = Some ''missing_field''\<rparr>"
    from Cons.prems a None
    have "present_loop e xs fe (dict_set field ?r frs) cs = Inr (frs', cs')" by simp
    moreover have "category ?r = ''present''" by simp
    ultimately show ?thesis by blast
  next
    case (Some ev)
    show ?thesis
    proof (cases "compare_values e tv ev cs")
      case (Inl err)
      with Cons.prems a Some show ?thesis by simp
    next
      case (Inr res)
      obtain is_match cs1 where res: "res = (is_match, cs1)" by (cases res)
      let ?r = "\<lparr>ground_truth = tv, extracted = ev, match = is_match,
                 category = ''present'', error = None\<rparr>"
      from Cons.prems a Some Inr res
      have "present_loop e xs fe (dict_set field ?r frs) cs1 = Inr (frs', cs')" by simp
      moreover have "category ?r = ''present''" by simp
      ultimately show ?thesis by blast
    qed
  qed
  then obtain r cs1 where r: "category r = ''present''"
    and l: "present_loop e xs fe (dict_set field r frs) cs1 = Inr (frs', cs')" by blast
  from Cons.IH[OF l] have
    k: "dict_keys frs' = dict_keys (dict_set field r frs) \<union> dict_keys xs"
    and d: "distinct (map fst (dict_set field r frs)) \<longrightarrow> distinct (map fst frs')"
    and c: "\<forall>pr \<in> set frs'. pr \<in> set (dict_set field r frs)
              \<or> (fst pr \<in> dict_keys xs \<and> category (snd pr) = ''present'')"
    by (rule conjunct1, rule conjunct2[THEN conjunct1], rule conjunct2[THEN conjunct2])
  have 1: "dict_keys frs' = dict_keys frs \<union> dict_keys (a # xs)"
    unfolding k by (simp add: a dict_keys_dict_set dict_keys_Cons)
  have 2: "distinct (map fst frs) \<longrightarrow> distinct (map fst frs')"
    using d by (simp add: distinct_dict_set)
  have 3: "\<forall>pr \<in> set frs'. pr \<in> set frs
        \<or> (fst pr \<in> dict_keys (a # xs) \<and> category (snd pr) = ''present'')"
  proof
    fix pr assume "pr \<in> set frs'"
    with c have "pr \<in> set (dict_set field r frs)
              \<or> (fst pr \<in> dict_keys xs \<and> category (snd pr) = ''present'')" by blast
    then show "pr \<in> set frs \<or> (fst pr \<in> dict_keys (a # xs) \<and> category (snd pr) = ''present'')"
    proof
      assume "pr \<in> set (dict_set field r frs)"
      then have "pr \<in> set frs \<or> pr = (field, r)" by (rule set_dict_set)
      then show ?thesis using r by (auto simp only: a dict_keys_Cons fst_conv snd_conv insert_iff)
    next
      assume "fst pr \<in> dict_keys xs \<and> category (snd pr) = ''present''"
      then show ?thesis by (simp only: a dict_keys_Cons insert_iff) blast
    qed
  qed
  show ?case by (rule conjI[OF 1 conjI[OF 2 3]])
qed

lemma extra_loop_step:
  "\<exists>r. (category r = ''missing'' \<or> category r = ''extra'')
     \<and> extra_loop ((field, v) # xs) fg frs =
         (if field \<notin> dict_keys fg then extra_loop xs fg (dict_set field r frs)
          else extra_loop xs fg frs)"
proof (cases "v = JStr MISSING_FIELD")
  case True
  let ?r = "\<lparr>ground_truth = JStr MISSING_FIELD, extracted = v,
             match = True, category = ''missing'', error = None\<rparr>"
  have "category ?r = ''missing'' \<or> category ?r = ''extra''" by simp
  moreover have "extra_loop ((field, v) # xs) fg frs =
         (if field \<notin> dict_keys fg then extra_loop xs fg (dict_set field ?r frs)
          else extra_loop xs fg frs)" using True by simp
  ultimately show ?thesis by blast
next
  case False
  let ?r = "\<lparr>ground_truth = JNull, extracted = v,
             match = False, category = ''extra'', error = Some ''extra_field''\<rparr>"
  have "category ?r = ''missing'' \<or> category ?r = ''extra''" by simp
  moreover have "extra_loop ((field, v) # xs) fg frs =
         (if field \<notin> dict_keys fg then extra_loop xs fg (dict_set field ?r frs)
          else extra_loop xs fg frs)" using False by simp
  ultimately show ?thesis by blast
qed

lemma extra_loop_props:
  "dict_keys (extra_loop xs fg frs) = dict_keys frs \<union> (dict_keys xs - dict_keys fg)
     \<and> (distinct (map fst frs) \<longrightarrow> distinct (map fst (extra_loop xs fg frs)))
     \<and> (\<forall>pr \<in> set (extra_loop xs fg frs). pr \<in> set frs \<or>
           (fst pr \<in> dict_keys xs \<and> fst pr \<notin> dict_keys fg
            \<and> (category (snd pr) = ''missing'' \<or> category (snd pr) = ''extra'')))"
proof (induction xs arbitrary: frs)
  case Nil
  then show ?case by (simp add: dict_keys_Nil)
next
  case (Cons a xs)
  obtain field v where a: "a = (field, v)" by (cases a)
  obtain r where r: "category r = ''missing'' \<or> category r = ''extra''"
    and s: "extra_loop ((field, v) # xs) fg frs =
         (if field \<notin> dict_keys fg then extra_loop xs fg (dict_set field r frs)
          else extra_loop xs fg frs)"
    using extra_loop_step by blast
  show ?case
  proof (cases "field \<in> dict_keys fg")
    case True
    then have e: "extra_loop (a # xs) fg frs = extra_loop xs fg frs" using s a by simp
    have u: "dict_keys (a # xs) - dict_keys fg = dict_keys xs - dict_keys fg"
      using True by (simp add: a dict_keys_Cons)
    have i: "fst pr \<in> dict_keys xs \<Longrightarrow> fst pr \<in> dict_keys (a # xs)" for pr :: "string \<times> field_result"
      by (simp add: a dict_keys_Cons)
    from Cons.IH[of frs] have
      k: "dict_keys (extra_loop xs fg frs) = dict_keys frs \<union> (dict_keys xs - dict_keys fg)"
      and d: "distinct (map fst frs) \<longrightarrow> distinct (map fst (extra_loop xs fg frs))"
      and c: "\<forall>pr \<in> set (extra_loop xs fg frs). pr \<in> set frs \<or>
           (fst pr \<in> dict_keys xs \<and> fst pr \<notin> dict_keys fg
            \<and> (category (snd pr) = ''missing'' \<or> category (snd pr) = ''extra''))"
      by (rule conjunct1, rule conjunct2[THEN conjunct1], rule conjunct2[THEN conjunct2])
    have 3: "\<forall>pr \<in> set (extra_loop xs fg frs). pr \<in> set frs \<or>
           (fst pr \<in> dict_keys (a # xs) \<and> fst pr \<notin> dict_keys fg
            \<and> (category (snd pr) = ''missing'' \<or> category (snd pr) = ''extra''))"
      using c i by blast
    show ?thesis unfolding e u by (rule conjI[OF k conjI[OF d 3]])
  next
    case False
    then have e: "extra_loop (a # xs) fg frs = extra_loop xs fg (dict_set field r frs)"
      using s a by simp
    let ?f = "dict_set field r frs"
    from Cons.IH[of ?f] have
      k: "dict_keys (extra_loop xs fg ?f) = dict_keys ?f \<union> (dict_keys xs - dict_keys fg)"
      and d: "distinct (map fst ?f) \<longrightarrow> distinct (map fst (extra_loop xs fg ?f))"
      and c: "\<forall>pr \<in> set (extra_loop xs fg ?f). pr \<in> set ?f \<or>
           (fst pr \<in> dict_keys xs \<and> fst pr \<notin> dict_keys fg
            \<and> (category (snd pr) = ''missing'' \<or> category (snd pr) = ''extra''))"
      by (rule conjunct1, rule conjunct2[THEN conjunct1], rule conjunct2[THEN conjunct2])
    have 1: "dict_keys (extra_loop xs fg ?f) = dict_keys frs \<union> (dict_keys (a # xs) - dict_keys fg)"
      unfolding k using False by (simp add: a dict_keys_dict_set dict_keys_Cons insert_Diff_if)
    have 2: "distinct (map fst frs) \<longrightarrow> distinct (map fst (extra_loop xs fg ?f))"
      using d by (simp add: distinct_dict_set)
    have 3: "\<forall>pr \<in> set (extra_loop xs fg ?f). pr \<in> set frs \<or>
           (fst pr \<in> dict_keys (a # xs) \<and> fst pr \<notin> dict_keys fg
            \<and> (category (snd pr) = ''missing'' \<or> category (snd pr) = ''extra''))"
    proof
      fix pr assume "pr \<in> set (extra_loop xs fg ?f)"
      with c have "pr \<in> set ?f \<or>
           (fst pr \<in> dict_keys xs \<and> fst pr \<notin> dict_keys fg
            \<and> (category (snd pr) = ''missing'' \<or> category (snd pr) = ''extra''))" by blast
      then show "pr \<in> set frs \<or>
           (fst pr \<in> dict_keys (a # xs) \<and> fst pr \<notin> dict_keys fg
            \<and> (category (snd pr) = ''missing'' \<or> category (snd pr) = ''extra''))"
      proof
        assume "pr \<in> set ?f"
        then have "pr \<in> set frs \<or> pr = (field, r)" by (rule set_dict_set)
        then show ?thesis using r False
          by (auto simp only: a dict_keys_Cons fst_conv snd_conv insert_iff)
      next
        assume "fst pr \<in> dict_keys xs \<and> fst pr \<notin> dict_keys fg
            \<and> (category (snd pr) = ''missing'' \<or> category (snd pr) = ''extra'')"
        then show ?thesis by (simp only: a dict_keys_Cons insert_iff) blast
      qed
    qed
    show ?thesis unfolding e by (rule conjI[OF 1 conjI[OF 2 3]])
  qed
qed

section \<open>Verification: the reconciler partitions the paths\<close>

lemma compare_values_returns:
  assumes "str_like v1" and "str_like v2"
  shows "\<exists>b cs'. compare_values e v1 v2 cs = Inr (b, cs')"
proof -
  have m1: "\<exists>m. marker_in v1 = Inr m \<or> v1 = JNull"
    using assms(1) by (cases v1) (simp_all add: str_like_def)
  have m2: "\<exists>m. marker_in v2 = Inr m \<or> v2 = JNull"
    using assms(2) by (cases v2) (simp_all add: str_like_def)
  obtain b cs' where "semantic_match e (strip (py_lower e (py_str e v1)))
      (strip (py_lower e (py_str e v2))) cs = (b, cs')"
    by (cases "semantic_match e (strip (py_lower e (py_str e v1)))
      (strip (py_lower e (py_str e v2))) cs")
  then show ?thesis using m1 m2
    by (auto simp: compare_values_def Let_def)
qed

lemma present_loop_returns:
  assumes "\<forall>kv \<in> set xs. str_like (snd kv)" and "\<forall>kv \<in> set fe. str_like (snd kv)"
  shows "\<exists>frs' cs'. present_loop e xs fe frs cs = Inr (frs', cs')"
  using assms(1)
proof (induction xs arbitrary: frs cs)
  case Nil
  show ?case by simp
next
  case (Cons a xs)
  obtain field tv where a: "a = (field, tv)" by (cases a)
  from Cons.prems have tv: "str_like tv" and rest: "\<forall>kv \<in> set xs. str_like (snd kv)"
    by (simp_all add: a)
  show ?case
  proof (cases "map_of fe field")
    case None
    then show ?thesis using Cons.IH[OF rest] by (simp add: a)
  next
    case (Some ev)
    then have "(field, ev) \<in> set fe" by (rule map_of_SomeD)
    with assms(2) have "str_like ev" by force
    from compare_values_returns[OF tv this] obtain b cs1
      where "compare_values e tv ev cs = Inr (b, cs1)" by blast
    then show ?thesis using Cons.IH[OF rest] Some by (simp add: a)
  qed
qed


lemma evaluate_data_returns:
  assumes "flatten_dict gt [] = Inr fg" and "flatten_dict ex [] = Inr fe"
    and "\<forall>kv \<in> set fg. str_like (snd kv)" and "\<forall>kv \<in> set fe. str_like (snd kv)"
  shows "\<exists>ev cs'. evaluate_data e gt ex missing cs = Inr (ev, cs')"
proof -
  from present_loop_returns[OF assms(3) assms(4)] obtain frs1 cs1
    where "present_loop e fg fe [] cs = Inr (frs1, cs1)" by blast
  then show ?thesis using assms(1,2) by (simp add: evaluate_data_def Let_def)
qed

lemma evaluate_data_partition_if_returns:
  assumes "evaluate_data e gt ex missing cs = Inr (ev, cs')"
  shows "\<exists>fg fe. flatten_dict gt [] = Inr fg \<and> flatten_dict ex [] = Inr fe
     \<and> distinct (map fst (field_results ev))
     \<and> dict_keys (field_results ev) = dict_keys fg \<union> dict_keys fe
     \<and> (\<forall>pr \<in> set (field_results ev).
          (fst pr \<in> dict_keys fg \<longrightarrow> category (snd pr) = ''present'')
        \<and> (fst pr \<notin> dict_keys fg \<longrightarrow>
             category (snd pr) = ''missing'' \<or> category (snd pr) = ''extra''))"
proof -
  from assms obtain fg where fg: "flatten_dict gt [] = Inr fg"
    by (cases "flatten_dict gt []") (simp_all add: evaluate_data_def Let_def)
  from assms fg obtain fe where fe: "flatten_dict ex [] = Inr fe"
    by (cases "flatten_dict ex []") (simp_all add: evaluate_data_def Let_def)
  from assms fg fe obtain frs1 where p: "present_loop e fg fe [] cs = Inr (frs1, cs')"
    and ev: "field_results ev = extra_loop fe fg frs1"
    by (cases "present_loop e fg fe [] cs") (auto simp: evaluate_data_def Let_def)
  from present_loop_props[OF p] have
    k1: "dict_keys frs1 = dict_keys fg"
    and d1: "distinct (map fst frs1)"
    and c1: "\<forall>pr \<in> set frs1. fst pr \<in> dict_keys fg \<and> category (snd pr) = ''present''"
    by (simp_all add: dict_keys_Nil)
  from extra_loop_props[of fe fg frs1] have
    k2: "dict_keys (extra_loop fe fg frs1) = dict_keys frs1 \<union> (dict_keys fe - dict_keys fg)"
    and d2: "distinct (map fst frs1) \<longrightarrow> distinct (map fst (extra_loop fe fg frs1))"
    and c2: "\<forall>pr \<in> set (extra_loop fe fg frs1). pr \<in> set frs1 \<or>
           (fst pr \<in> dict_keys fe \<and> fst pr \<notin> dict_keys fg
            \<and> (category (snd pr) = ''missing'' \<or> category (snd pr) = ''extra''))"
    by (rule conjunct1, rule conjunct2[THEN conjunct1], rule conjunct2[THEN conjunct2])
  have 1: "distinct (map fst (field_results ev))" using d1 d2 ev by simp
  have 2: "dict_keys (field_results ev) = dict_keys fg \<union> dict_keys fe"
    unfolding ev k2 k1 by blast
  have 3: "\<forall>pr \<in> set (field_results ev).
          (fst pr \<in> dict_keys fg \<longrightarrow> category (snd pr) = ''present'')
        \<and> (fst pr \<notin> dict_keys fg \<longrightarrow>
             category (snd pr) = ''missing'' \<or> category (snd pr) = ''extra'')"
    unfolding ev using c1 c2 by blast
  from fg fe 1 2 3 show ?thesis by blast
qed

text \<open>
  Claim C1.  The reconciler does not give a field result to every path of every
  pair of records.  On the ground truth \<^verbatim>\<open>{"age": 30}\<close> and the extracted record
  \<^verbatim>\<open>{"age": 30}\<close> the comparator is called on the two numbers, its test
  \<^verbatim>\<open>MISSING_FIELD in value1\<close> raises \<^verbatim>\<open>TypeError\<close>, nothing catches it, and
  \<^verbatim>\<open>_evaluate_data\<close> ends without a result for the path \<^verbatim>\<open>age\<close>.  (Whenever the
  reconciler returns, its results do partition the paths:
  \<open>evaluate_data_partition_if_returns\<close>.)
\<close>

theorem evaluate_data_number_raises:
  "evaluate_data e (JDict [(''age'', JNum 30)]) (JDict [(''age'', JNum 30)]) missing cs
     = Inl TypeError"
  by (simp add: evaluate_data_def flatten_dict_def dict_of_items_def compare_values_def)

section \<open>Verification: the comparator\<close>

lemma compare_values_null:
  "compare_values e JNull JNull cs = Inr (True, cs)"
  "v \<noteq> JNull \<Longrightarrow> compare_values e JNull v cs = Inr (False, cs)"
  "v \<noteq> JNull \<Longrightarrow> compare_values e v JNull cs = Inr (False, cs)"
  by (simp_all add: compare_values_def)

lemma compare_values_marker_strings:
  "contains s1 MISSING_FIELD \<or> contains s2 MISSING_FIELD \<Longrightarrow>
     compare_values e (JStr s1) (JStr s2) cs
       = Inr (contains s1 MISSING_FIELD \<and> contains s2 MISSING_FIELD, cs)"
  by (auto simp: compare_values_def)

text \<open>
  Claim C3.  The comparator does not return a boolean on every pair of scalars:
  on the number \<^verbatim>\<open>5\<close> and the string \<^verbatim>\<open>"5"\<close> the test
  \<^verbatim>\<open>MISSING_FIELD in value1\<close> raises \<^verbatim>\<open>TypeError\<close>, before the values are coerced
  to strings.
\<close>

theorem compare_values_number_raises:
  "compare_values e (JNum 5) (JStr ''5'') cs = Inl TypeError"
  by (simp add: compare_values_def)

section \<open>Verification: paths only the extracted record has\<close>

lemma extra_loop_other:
  "p \<notin> dict_keys xs \<Longrightarrow> map_of (extra_loop xs fg frs) p = map_of frs p"
proof (induction xs arbitrary: frs)
  case Nil
  show ?case by simp
next
  case (Cons a xs)
  obtain field v where a: "a = (field, v)" by (cases a)
  from Cons.prems have ne: "p \<noteq> field" and rest: "p \<notin> dict_keys xs"
    by (auto simp: a dict_keys_Cons)
  show ?case using Cons.IH[OF rest] ne
    by (simp add: a map_of_dict_set)
qed

lemma extra_loop_lookup:
  assumes "distinct (map fst xs)" and "map_of xs p = Some v" and "p \<notin> dict_keys fg"
  shows "map_of (extra_loop xs fg frs) p =
     Some (if v = JStr MISSING_FIELD
           then \<lparr>ground_truth = JStr MISSING_FIELD, extracted = v, match = True,
                 category = ''missing'', error = None\<rparr>
           else \<lparr>ground_truth = JNull, extracted = v, match = False,
                 category = ''extra'', error = Some ''extra_field''\<rparr>)"
  using assms(1,2)
proof (induction xs arbitrary: frs)
  case Nil
  then show ?case by simp
next
  case (Cons a xs)
  obtain field v0 where a: "a = (field, v0)" by (cases a)
  show ?case
  proof (cases "field = p")
    case True
    with Cons.prems a have v0: "v0 = v" and notin: "p \<notin> dict_keys xs"
      by (auto simp: dict_keys_def)
    show ?thesis using assms(3) True
      by (simp add: a v0 extra_loop_other[OF notin] map_of_dict_set)
  next
    case False
    with Cons.prems a have d: "distinct (map fst xs)" and m: "map_of xs p = Some v"
      by auto
    show ?thesis using Cons.IH[OF d m] by (simp add: a)
  qed
qed

text \<open>
  Claim C4, amended.  For every path of the flattened extracted record that the
  flattened ground truth does not have: if the extracted value is equal to the
  marker, the result has category \<open>missing\<close>, match true and the marker as ground
  truth; otherwise it has category \<open>extra\<close>, match false and the tag
  \<open>extra_field\<close>.
\<close>

theorem extra_fields_classified:
  assumes "evaluate_data e gt ex missing cs = Inr (ev, cs')"
    and "flatten_dict gt [] = Inr fg" and "flatten_dict ex [] = Inr fe"
    and "map_of fe p = Some v" and "p \<notin> dict_keys fg"
  shows "map_of (field_results ev) p =
     Some (if v = JStr MISSING_FIELD
           then \<lparr>ground_truth = JStr MISSING_FIELD, extracted = v, match = True,
                 category = ''missing'', error = None\<rparr>
           else \<lparr>ground_truth = JNull, extracted = v, match = False,
                 category = ''extra'', error = Some ''extra_field''\<rparr>)"
proof -
  from assms(1,2,3) obtain frs1 where ev: "field_results ev = extra_loop fe fg frs1"
    by (cases "present_loop e fg fe [] cs") (auto simp: evaluate_data_def Let_def)
  have d: "distinct (map fst fe)" using assms(3) by (rule flatten_dict_distinct)
  show ?thesis unfolding ev by (rule extra_loop_lookup[OF d assms(4) assms(5)])
qed

theorem extra_fields_classified_witness:
  "map_of (field_results
     \<lparr>metrics =
         \<lparr>overall_accuracy = 1/2, precision = 1/2, recall = 1, f1_score = 2/3,
            true_positives = 1, false_positives = 1, false_negatives = 0,
            total_fields = 3, missing_fields_count = 0,
            categories =
              [(''present'', \<lparr>total = 1, matched = 1, accuracy = 1\<rparr>),
               (''extra'', \<lparr>total = 1, matched = 0, accuracy = 0\<rparr>),
               (''missing'', \<lparr>total = 1, matched = 1, accuracy = 1\<rparr>)]\<rparr>,
         field_results =
           [(''name'',
             \<lparr>ground_truth = JStr ''Jane'', extracted = JStr ''jane'', match = True,
                category = ''present'', error = None\<rparr>),
            (''phone'',
             \<lparr>ground_truth = JStr ''MISSING INFORMATION'',
                extracted = JStr ''MISSING INFORMATION'', match = True,
                category = ''missing'', error = None\<rparr>),
            (''age'',
             \<lparr>ground_truth = JNull, extracted = JStr ''41'', match = False,
                category = ''extra'', error = Some ''extra_field''\<rparr>)],
         missing_fields = []\<rparr>) ''phone''
   = Some \<lparr>ground_truth = JStr MISSING_FIELD, extracted = JStr ''MISSING INFORMATION'',
            match = True, category = ''missing'', error = None\<rparr>"
proof -
  have h: "evaluate_data yes_env (JDict [(''name'', JStr ''Jane'')])
     (JDict [(''name'', JStr ''jane''), (''phone'', JStr ''MISSING INFORMATION''),
             (''age'', JStr ''41'')]) None []
   = Inr (\<lparr>metrics =
         \<lparr>overall_accuracy = 1/2, precision = 1/2, recall = 1, f1_score = 2/3,
            true_positives = 1, false_positives = 1, false_negatives = 0,
            total_fields = 3, missing_fields_count = 0,
            categories =
              [(''present'', \<lparr>total = 1, matched = 1, accuracy = 1\<rparr>),
               (''extra'', \<lparr>total = 1, matched = 0, accuracy = 0\<rparr>),
               (''missing'', \<lparr>total = 1, matched = 1, accuracy = 1\<rparr>)]\<rparr>,
         field_results =
           [(''name'',
             \<lparr>ground_truth = JStr ''Jane'', extracted = JStr ''jane'', match = True,
                category = ''present'', error = None\<rparr>),
            (''phone'',
             \<lparr>ground_truth = JStr ''MISSING INFORMATION'',
                extracted = JStr ''MISSING INFORMATION'', match = True,
                category = ''missing'', error = None\<rparr>),
            (''age'',
             \<lparr>ground_truth = JNull, extracted = JStr ''41'', match = False,
                category = ''extra'', error = Some ''extra_field''\<rparr>)],
         missing_fields = []\<rparr>, [])"
    by code_simp
  have g: "flatten_dict (JDict [(''name'', JStr ''Jane'')]) [] = Inr [(''name'', JStr ''Jane'')]"
    by code_simp
  have x: "flatten_dict (JDict [(''name'', JStr ''jane''), (''phone'', JStr ''MISSING INFORMATION''),
             (''age'', JStr ''41'')]) []
      = Inr [(''name'', JStr ''jane''), (''phone'', JStr ''MISSING INFORMATION''), (''age'', JStr ''41'')]"
    by code_simp
  have l: "map_of [(''name'', JStr ''jane''), (''phone'', JStr ''MISSING INFORMATION''),
       (''age'', JStr ''41'')] ''phone'' = Some (JStr ''MISSING INFORMATION'')"
    by simp
  have n: "''phone'' \<notin> dict_keys [(''name'', JStr ''Jane'')]"
    by (simp add: dict_keys_def)
  show ?thesis using extra_fields_classified[OF h g x l n]
    by (simp add: MISSING_FIELD_def)
qed

theorem extra_marker_substring_counterexample:
  "contains ''MISSING INFORMATION (not given)'' MISSING_FIELD
   \<and> (case evaluate_data yes_env (JDict [])
              (JDict [(''phone'', JStr ''MISSING INFORMATION (not given)'')]) None [] of
         Inl err \<Rightarrow> None
       | Inr (ev, cs) \<Rightarrow> map_of (field_results ev) ''phone'')
     = Some \<lparr>ground_truth = JNull, extracted = JStr ''MISSING INFORMATION (not given)'',
              match = False, category = ''extra'', error = Some ''extra_field''\<rparr>"
  by code_simp

section \<open>Verification: the stripper and the caller's record\<close>

lemma find_missing_fields_copy_keeps_caller:
  "find_missing_fields d p None = Inr out \<Longrightarrow> caller_data out = d"
  by (auto simp: find_missing_fields_def split: sum.splits)

lemma process_ground_truth_keeps_caller:
  "process_ground_truth d = Inr out \<Longrightarrow> caller_data out = d"
  by (auto simp: process_ground_truth_def split: sum.splits)

text \<open>
  Claim C5.  The call of the stripper in \<^verbatim>\<open>Evaluator.generate\<close> passes a list for
  \<^verbatim>\<open>missing_fields\<close>, so no copy is taken: after the call the caller's record has
  lost its marked field.
\<close>

theorem generate_strip_mutates_caller:
  "generate_strip (JDict [(''name'', JStr ''Jane''), (''phone'', JStr ''MISSING INFORMATION'')])
     = Inr \<lparr>caller_data = JDict [(''name'', JStr ''Jane'')],
            returned = JDict [(''name'', JStr ''Jane'')],
            missing_after = [''phone'']\<rparr>"
  by code_simp

section \<open>Verification: the short circuit before the oracle\<close>

lemma semantic_match_short_circuit:
  "\<bar>int (length a) - int (length b)\<bar> > 20 \<or> length a < 3 \<or> length b < 3 \<Longrightarrow>
     semantic_match e a b cs = (False, cs)"
  by (auto simp: semantic_match_def)

text \<open>
  Claim C8.  For two strings without the marker whose lowercased, trimmed forms
  differ: if these two forms (the strings the equivalence check is given) differ
  in length by more than 20 characters, or one of them has fewer than 3
  characters, the comparator returns false and the log of oracle calls is
  unchanged; so it is for \<^verbatim>\<open>"ab"\<close> and \<^verbatim>\<open>"cd"\<close>.
\<close>

theorem compare_values_short_circuit:
  assumes "\<not> contains s1 MISSING_FIELD" and "\<not> contains s2 MISSING_FIELD"
    and "strip (py_lower e s1) \<noteq> strip (py_lower e s2)"
    and "\<bar>int (length (strip (py_lower e s1))) - int (length (strip (py_lower e s2)))\<bar> > 20
         \<or> length (strip (py_lower e s1)) < 3 \<or> length (strip (py_lower e s2)) < 3"
  shows "compare_values e (JStr s1) (JStr s2) cs = Inr (False, cs)"
proof -
  from assms(4)
  have "semantic_match e (strip (py_lower e s1)) (strip (py_lower e s2)) cs = (False, cs)"
    by (rule semantic_match_short_circuit)
  then show ?thesis using assms(1,2,3)
    by (simp add: compare_values_def py_str_def Let_def)
qed

theorem compare_values_short_circuit_witness:
  "compare_values yes_env (JStr ''ab'') (JStr ''cd'') [] = Inr (False, [])"
proof -
  have 1: "\<not> contains ''ab'' MISSING_FIELD" by code_simp
  have 2: "\<not> contains ''cd'' MISSING_FIELD" by code_simp
  have 3: "strip (py_lower yes_env ''ab'') \<noteq> strip (py_lower yes_env ''cd'')" by code_simp
  have l: "length (strip (py_lower yes_env ''ab'')) = 2" by code_simp
  have 4: "\<bar>int (length (strip (py_lower yes_env ''ab'')))
             - int (length (strip (py_lower yes_env ''cd'')))\<bar> > 20
         \<or> length (strip (py_lower yes_env ''ab'')) < 3
         \<or> length (strip (py_lower yes_env ''cd'')) < 3"
    unfolding l by simp
  show ?thesis by (rule compare_values_short_circuit[OF 1 2 3 4])
qed

section \<open>Verification: empty containers\<close>

lemma flatten_items_append:
  "flatten_items (xs @ ys) p = flatten_items xs p @ flatten_items ys p"
proof (induction xs)
  case Nil
  show ?case by simp
next
  case (Cons a xs)
  obtain k v where a: "a = (k, v)" by (cases a)
  show ?case using Cons.IH by (simp add: a Let_def)
qed

lemma dict_of_items_Nil: "dict_of_items [] = []"
  by (simp add: dict_of_items_def)

lemma flatten_items_empty_container:
  "e = JDict [] \<or> e = JList [] \<Longrightarrow> flatten_items ((k, e) # ys) p = flatten_items ys p"
  by (auto simp: Let_def dict_of_items_Nil)

lemma flatten_items_drop_empty:
  assumes "e = JDict [] \<or> e = JList []"
  shows "flatten_items (xs @ (k, e) # ys) p = flatten_items (xs @ ys) p"
  using flatten_items_empty_container[OF assms, of k ys p]
  by (simp add: flatten_items_append)

lemma flatten_dict_drop_empty:
  assumes "e = JDict [] \<or> e = JList []"
  shows "flatten_dict (JDict (xs @ (k, e) # ys)) p = flatten_dict (JDict (xs @ ys)) p"
  by (simp add: flatten_dict_def flatten_items_drop_empty[OF assms])

lemma evaluate_data_flat:
  "flatten_dict gt [] = flatten_dict gt' [] \<Longrightarrow> flatten_dict ex [] = flatten_dict ex' [] \<Longrightarrow>
     evaluate_data en gt ex m cs = evaluate_data en gt' ex' m cs"
  by (simp only: evaluate_data_def)

lemma flatten_prune:
  "flatten_items (prune_items kvs) p = flatten_items kvs p"
  "flatten_elems (prune_elems xs) nk i = flatten_elems xs nk i"
proof (induction kvs p and xs nk i rule: flatten_items_flatten_elems.induct)
  case (1 parent_key)
  show ?case by simp
next
  case (2 k v rest parent_key)
  show ?case
  proof (cases v)
    case (JDict kvs)
    then show ?thesis using 2 by (simp add: Let_def dict_of_items_Nil)
  next
    case (JList xs)
    then show ?thesis using 2 by (simp add: Let_def)
  qed (use 2 in \<open>simp_all add: Let_def\<close>)
next
  case (3 new_key i)
  show ?case by simp
next
  case (4 item others new_key i)
  show ?case
  proof (cases item)
    case (JDict kvs)
    then show ?thesis using 4 by simp
  qed (use 4 in simp_all)
qed

lemma flatten_dict_prune: "flatten_dict (prune r) p = flatten_dict r p"
  by (cases r) (simp_all add: prune_def flatten_dict_def flatten_prune)

text \<open>
  Claim C10, amended.  In a dict the flattener enters (the root, a dict that is
  a value in such a dict, a dict that is an element of a list that is a value in
  such a dict), an entry whose value is an empty dict or an empty list adds
  nothing to the flat map, whatever the parent path: the flattener gives the
  same result with the entry removed, at the root and (by \<open>prune\<close>) in every
  dict it enters.  So the reconciler returns the same field results and the
  same metrics with or without such entries, in the ground truth and in the
  extracted record.  A dict below a list that is itself an element of a list is
  not entered: there the empty container stays inside a leaf value and counts.
\<close>

theorem empty_container_vanishes:
  assumes "e = JDict [] \<or> e = JList []"
  shows "flatten_items (xs @ (k, e) # ys) p = flatten_items (xs @ ys) p
     \<and> flatten_dict (JDict (xs @ (k, e) # ys)) p = flatten_dict (JDict (xs @ ys)) p
     \<and> evaluate_data en (JDict (xs @ (k, e) # ys)) other m cs
         = evaluate_data en (JDict (xs @ ys)) other m cs
     \<and> evaluate_data en other (JDict (xs @ (k, e) # ys)) m cs
         = evaluate_data en other (JDict (xs @ ys)) m cs
     \<and> flatten_dict (prune r) p = flatten_dict r p
     \<and> evaluate_data en (prune r) (prune r') m cs = evaluate_data en r r' m cs"
proof (intro conjI)
  show "flatten_items (xs @ (k, e) # ys) p = flatten_items (xs @ ys) p"
    by (rule flatten_items_drop_empty[OF assms])
  show "flatten_dict (JDict (xs @ (k, e) # ys)) p = flatten_dict (JDict (xs @ ys)) p"
    by (rule flatten_dict_drop_empty[OF assms])
  show "evaluate_data en (JDict (xs @ (k, e) # ys)) other m cs
         = evaluate_data en (JDict (xs @ ys)) other m cs"
    by (rule evaluate_data_flat[OF flatten_dict_drop_empty[OF assms] refl])
  show "evaluate_data en other (JDict (xs @ (k, e) # ys)) m cs
         = evaluate_data en other (JDict (xs @ ys)) m cs"
    by (rule evaluate_data_flat[OF refl flatten_dict_drop_empty[OF assms]])
  show "flatten_dict (prune r) p = flatten_dict r p"
    by (rule flatten_dict_prune)
  show "evaluate_data en (prune r) (prune r') m cs = evaluate_data en r r' m cs"
    by (rule evaluate_data_flat[OF flatten_dict_prune flatten_dict_prune])
qed

theorem empty_container_vanishes_witness:
  "flatten_dict (JDict [(''name'', JStr ''Jane''), (''tags'', JList []),
                        (''address'', JDict [(''history'', JDict [])])]) []
     = Inr [(''name'', JStr ''Jane'')]
   \<and> flatten_dict (JDict [(''name'', JStr ''Jane''), (''tags'', JList [])]) []
     = flatten_dict (JDict [(''name'', JStr ''Jane'')]) []"
proof -
  have e: "JList [] = JDict [] \<or> JList [] = JList []" by simp
  have a: "[(''name'', JStr ''Jane'')] @ (''tags'', JList []) # []
             = [(''name'', JStr ''Jane''), (''tags'', JList [])]" by simp
  have p: "prune (JDict [(''name'', JStr ''Jane''), (''tags'', JList []),
                        (''address'', JDict [(''history'', JDict [])])])
             = JDict [(''name'', JStr ''Jane''), (''address'', JDict [])]"
    by code_simp
  have f: "flatten_dict (JDict [(''name'', JStr ''Jane''), (''address'', JDict [])]) []
             = Inr [(''name'', JStr ''Jane'')]"
    by code_simp
  note t = empty_container_vanishes[OF e, of "[(''name'', JStr ''Jane'')]" "''tags''" "[]" "[]"
      yes_env JNull None "[]"
      "JDict [(''name'', JStr ''Jane''), (''tags'', JList []),
                        (''address'', JDict [(''history'', JDict [])])]" JNull]
  from t have 1: "flatten_dict (JDict [(''name'', JStr ''Jane''), (''tags'', JList []),
                        (''address'', JDict [(''history'', JDict [])])]) []
     = Inr [(''name'', JStr ''Jane'')]"
    unfolding p f[symmetric] by simp
  from t have 2: "flatten_dict (JDict [(''name'', JStr ''Jane''), (''tags'', JList [])]) []
     = flatten_dict (JDict [(''name'', JStr ''Jane'')]) []"
    unfolding a by simp
  from 1 2 show ?thesis by (rule conjI)
qed

theorem empty_container_in_leaf_counterexample:
  "flatten_dict (JDict [(''a'', JList [JList [JDict [(''b'', JList [])]]])]) []
     = Inr [(''a[0]'', JList [JDict [(''b'', JList [])]])]
   \<and> flatten_dict (JDict [(''a'', JList [JList [JDict []]])]) []
     = Inr [(''a[0]'', JList [JDict []])]
   \<and> map_sum id (\<lambda>r. (true_positives (metrics (fst r)), false_positives (metrics (fst r))))
       (evaluate_data no_env (JDict [(''a'', JList [JList [JDict [(''b'', JList [])]]])])
          (JDict [(''a'', JList [JList [JDict []]])]) None [])
     = Inr (0, 1)
   \<and> map_sum id (\<lambda>r. (true_positives (metrics (fst r)), false_positives (metrics (fst r))))
       (evaluate_data no_env (JDict [(''a'', JList [JList [JDict []]])])
          (JDict [(''a'', JList [JList [JDict []]])]) None [])
     = Inr (1, 0)"
  by code_simp

section \<open>Verification: items applied to a dict\<close>

lemma apply_items_Nil [simp]: "apply_items d [] = d"
  by (simp add: apply_items_def)

lemma apply_items_Cons [simp]: "apply_items d ((k, v) # xs) = apply_items (dict_set k v d) xs"
  by (simp add: apply_items_def)

lemma apply_items_append: "apply_items d (xs @ ys) = apply_items (apply_items d xs) ys"
  by (simp add: apply_items_def)

lemma dict_of_items_apply: "dict_of_items xs = apply_items [] xs"
  by (simp add: dict_of_items_def apply_items_def)

lemma dict_set_overwrite: "dict_set k v (dict_set k v' d) = dict_set k v d"
proof (induction d)
  case Nil
  show ?case by simp
next
  case (Cons a d)
  obtain c w where a: "a = (c, w)" by (cases a)
  show ?case by (cases "k = c") (simp_all add: a Cons.IH)
qed

lemma dict_set_commute:
  "k \<noteq> a \<Longrightarrow> k \<in> fst ` set d \<Longrightarrow>
     dict_set k v (dict_set a b d) = dict_set a b (dict_set k v d)"
proof (induction d)
  case Nil
  then show ?case by simp
next
  case (Cons x d)
  obtain c w where x: "x = (c, w)" by (cases x)
  consider "c = k" | "c = a" "c \<noteq> k" | "c \<noteq> k" "c \<noteq> a" by blast
  then show ?case
  proof cases
    case 1
    then show ?thesis using Cons.prems(1) by (simp add: x)
  next
    case 2
    then show ?thesis using Cons.prems(1) by (simp add: x)
  next
    case 3
    with Cons.prems have "k \<in> fst ` set d" by (auto simp: x)
    from Cons.IH[OF Cons.prems(1) this] show ?thesis using 3 by (simp add: x)
  qed
qed

lemma dict_set_apply_items:
  "k \<notin> fst ` set xs \<Longrightarrow> k \<in> fst ` set d \<Longrightarrow>
     dict_set k v (apply_items d xs) = apply_items (dict_set k v d) xs"
proof (induction xs arbitrary: d)
  case Nil
  show ?case by simp
next
  case (Cons x xs)
  obtain a b where x: "x = (a, b)" by (cases x)
  from Cons.prems have ne: "k \<noteq> a" and notin: "k \<notin> fst ` set xs" by (auto simp: x)
  have "k \<in> fst ` set (dict_set a b d)" using Cons.prems(2) by (simp add: keys_dict_set)
  from Cons.IH[OF notin this]
  show ?case by (simp add: x dict_set_commute[OF ne Cons.prems(2)])
qed

lemma apply_items_dict_set:
  "distinct (map fst e) \<Longrightarrow> apply_items d (dict_set k v e) = dict_set k v (apply_items d e)"
proof (induction e arbitrary: d)
  case Nil
  show ?case by simp
next
  case (Cons x e)
  obtain c w where x: "x = (c, w)" by (cases x)
  from Cons.prems have notin: "c \<notin> fst ` set e" and d: "distinct (map fst e)" by (auto simp: x)
  show ?case
  proof (cases "k = c")
    case True
    have "c \<in> fst ` set (dict_set c w d)" by (simp add: keys_dict_set)
    from dict_set_apply_items[OF notin this, of v]
    show ?thesis by (simp add: x True dict_set_overwrite)
  next
    case False
    then show ?thesis using Cons.IH[OF d] by (simp add: x)
  qed
qed

lemma apply_items_absorb_gen:
  "distinct (map fst e) \<Longrightarrow> apply_items d (apply_items e ys) = apply_items (apply_items d e) ys"
proof (induction ys arbitrary: e)
  case Nil
  show ?case by simp
next
  case (Cons y ys)
  obtain k v where y: "y = (k, v)" by (cases y)
  have "distinct (map fst (dict_set k v e))" using Cons.prems by (rule distinct_dict_set)
  from Cons.IH[OF this] show ?case
    by (simp add: y apply_items_dict_set[OF Cons.prems])
qed

lemma apply_items_absorb: "apply_items d (dict_of_items ys) = apply_items d ys"
  using apply_items_absorb_gen[of "[]" d ys] by (simp add: dict_of_items_apply)

section \<open>Verification: the flattener and the path grammar\<close>

lemma flatten_refines_nested:
  "p \<noteq> [] \<Longrightarrow> plain_entries kvs \<Longrightarrow>
     apply_items d (flatten_items kvs p) = apply_items d (spec_leaves_entries (Some p) kvs)"
  "plain_elems xs \<Longrightarrow>
     apply_items d (flatten_elems xs nk i) = apply_items d (spec_leaves_elems (Some nk) i xs)"
proof (induction kvs p and xs nk i arbitrary: d and d rule: flatten_items_flatten_elems.induct)
  case (1 parent_key)
  show ?case by simp
next
  case (2 k v rest parent_key)
  let ?nk = "parent_key @ ''.'' @ k"
  have nk: "(if parent_key \<noteq> [] then parent_key @ ''.'' @ k else k) = ?nk"
    using "2.prems"(1) by simp
  have ne: "?nk \<noteq> []" by simp
  from "2.prems" have pv: "plain v" and pr: "plain_entries rest" by simp_all
  have rest: "apply_items d' (flatten_items rest parent_key)
      = apply_items d' (spec_leaves_entries (Some parent_key) rest)" for d'
    by (rule "2.IH"(3)[OF nk[symmetric] "2.prems"(1) pr])
  have head: "apply_items d
        (case v of JDict kvs \<Rightarrow> dict_of_items (flatten_items kvs ?nk)
         | JList xs \<Rightarrow> flatten_elems xs ?nk 0 | _ \<Rightarrow> [(?nk, v)])
      = apply_items d (spec_leaves (Some ?nk) v)"
  proof (cases v)
    case (JDict kvs)
    with pv have "plain_entries kvs" by simp
    from "2.IH"(2)[OF nk[symmetric] JDict ne this]
    show ?thesis by (simp add: JDict apply_items_absorb)
  next
    case (JList ys)
    with pv have "plain_elems ys" by simp
    from "2.IH"(1)[OF nk[symmetric] JList this]
    show ?thesis by (simp add: JList)
  qed simp_all
  show ?case
    by (simp only: flatten_items.simps Let_def nk spec_leaves_entries.simps join_key.simps
        apply_items_append head rest)
next
  case (3 new_key i)
  show ?case by simp
next
  case (4 item others new_key i)
  let ?p = "new_key @ ''['' @ str_nat i @ '']''"
  have ne: "?p \<noteq> []" by simp
  from "4.prems" have po: "plain_elems others" by simp
  have rest: "apply_items d' (flatten_elems others new_key (Suc i))
      = apply_items d' (spec_leaves_elems (Some new_key) (Suc i) others)" for d'
    by (rule "4.IH"(2)[OF po])
  have head: "apply_items d
        (case item of JDict kvs \<Rightarrow> dict_of_items (flatten_items kvs ?p) | _ \<Rightarrow> [(?p, item)])
      = apply_items d (spec_leaves (Some ?p) item)"
  proof (cases item)
    case (JDict kvs)
    with "4.prems" have "plain_entries kvs" by simp
    from "4.IH"(1)[OF JDict ne this]
    show ?thesis by (simp add: JDict apply_items_absorb)
  next
    case (JList ys)
    with "4.prems" show ?thesis by simp
  qed simp_all
  show ?case
    by (simp only: flatten_elems.simps spec_leaves_elems.simps join_index.simps
        apply_items_append head rest)
qed

lemma flatten_refines_root:
  "\<forall>k \<in> fst ` set kvs. k \<noteq> [] \<Longrightarrow> plain_entries kvs \<Longrightarrow>
     apply_items d (flatten_items kvs []) = apply_items d (spec_leaves_entries None kvs)"
proof (induction kvs arbitrary: d)
  case Nil
  show ?case by simp
next
  case (Cons a kvs)
  obtain k v where a: "a = (k, v)" by (cases a)
  from Cons.prems have k: "k \<noteq> []" and ks: "\<forall>k \<in> fst ` set kvs. k \<noteq> []"
    and pv: "plain v" and pr: "plain_entries kvs"
    by (simp_all add: a)
  have rest: "apply_items d' (flatten_items kvs []) = apply_items d' (spec_leaves_entries None kvs)"
    for d' by (rule Cons.IH[OF ks pr])
  have head: "apply_items d
        (case v of JDict kvs \<Rightarrow> dict_of_items (flatten_items kvs k)
         | JList xs \<Rightarrow> flatten_elems xs k 0 | _ \<Rightarrow> [(k, v)])
      = apply_items d (spec_leaves (Some k) v)"
  proof (cases v)
    case (JDict kvs')
    with pv have "plain_entries kvs'" by simp
    from flatten_refines_nested(1)[OF k this]
    show ?thesis by (simp add: JDict apply_items_absorb)
  next
    case (JList ys)
    with pv have "plain_elems ys" by simp
    from flatten_refines_nested(2)[OF this]
    show ?thesis by (simp add: JList)
  qed simp_all
  have nk: "(if ([]::string) \<noteq> [] then [] @ ''.'' @ k else k) = k" by simp
  show ?case unfolding a
    by (simp only: flatten_items.simps Let_def nk spec_leaves_entries.simps join_key.simps
        apply_items_append head rest)
qed

lemma spec_leaves_scalar:
  "\<forall>kv \<in> set (spec_leaves sp v). is_scalar (snd kv)"
  "\<forall>kv \<in> set (spec_leaves_entries sp kvs). is_scalar (snd kv)"
  "\<forall>kv \<in> set (spec_leaves_elems sp i xs). is_scalar (snd kv)"
proof (induction sp v and sp kvs and sp i xs rule: spec_leaves_spec_leaves_entries_spec_leaves_elems.induct)
  case (1 path v)
  then show ?case by (cases v) (simp_all add: is_scalar_def is_container_def)
qed (simp_all del: spec_leaves.simps add: ball_Un)

lemma set_apply_items: "set (apply_items d xs) \<subseteq> set d \<union> set xs"
proof (induction xs arbitrary: d)
  case Nil
  show ?case by simp
next
  case (Cons a xs)
  obtain k v where a: "a = (k, v)" by (cases a)
  have "set (dict_set k v d) \<subseteq> set d \<union> {(k, v)}"
    using set_dict_set[of _ k v d] by blast
  with Cons.IH[of "dict_set k v d"] show ?case by (auto simp: a)
qed

text \<open>
  Claim C6, amended.  For every record whose root is a map with non-empty keys
  and in which no sequence is an element of a sequence, the flattener returns
  the flat map of the specification: entries at \<open>parent.key\<close> (\<open>key\<close> at the root),
  elements at \<open>parent[index]\<close> counted from 0, every nested map and sequence
  recursed into, and only scalars as leaves.
\<close>

theorem flatten_dict_refines_spec:
  assumes "plain (JDict kvs)" and "\<forall>k \<in> fst ` set kvs. k \<noteq> []"
  shows "flatten_dict (JDict kvs) [] = Inr (spec_flatten (JDict kvs))
     \<and> (\<forall>kv \<in> set (spec_flatten (JDict kvs)). is_scalar (snd kv))"
proof
  from assms(1) have p: "plain_entries kvs" by simp
  from flatten_refines_root[OF assms(2) p, of "[]"]
  show "flatten_dict (JDict kvs) [] = Inr (spec_flatten (JDict kvs))"
    by (simp add: flatten_dict_def spec_flatten_def dict_of_items_apply)
  show "\<forall>kv \<in> set (spec_flatten (JDict kvs)). is_scalar (snd kv)"
    using set_apply_items[of "[]" "spec_leaves None (JDict kvs)"]
      spec_leaves_scalar(1)[of None "JDict kvs"]
    unfolding spec_flatten_def dict_of_items_apply by auto
qed

theorem flatten_dict_refines_spec_witness:
  "flatten_dict (JDict [(''address'', JDict [(''history'',
        JList [JDict [(''city'', JStr ''Paris'')], JStr ''x''])]), (''n'', JNum 2)]) []
     = Inr [(''address.history[0].city'', JStr ''Paris''),
            (''address.history[1]'', JStr ''x''), (''n'', JNum 2)]"
proof -
  have p: "plain (JDict [(''address'', JDict [(''history'',
        JList [JDict [(''city'', JStr ''Paris'')], JStr ''x''])]), (''n'', JNum 2)])"
    by code_simp
  have k: "\<forall>k \<in> fst ` set [(''address'', JDict [(''history'',
        JList [JDict [(''city'', JStr ''Paris'')], JStr ''x''])]), (''n'', JNum 2)]. k \<noteq> []"
    by simp
  have s: "spec_flatten (JDict [(''address'', JDict [(''history'',
        JList [JDict [(''city'', JStr ''Paris'')], JStr ''x''])]), (''n'', JNum 2)])
     = [(''address.history[0].city'', JStr ''Paris''),
        (''address.history[1]'', JStr ''x''), (''n'', JNum 2)]"
    by code_simp
  from flatten_dict_refines_spec[OF p k] show ?thesis unfolding s by (rule conjunct1)
qed

theorem flatten_dict_nested_list_counterexample:
  "flatten_dict (JDict [(''a'', JList [JList [JNum 1]])]) [] = Inr [(''a[0]'', JList [JNum 1])]
   \<and> spec_flatten (JDict [(''a'', JList [JList [JNum 1]])]) = [(''a[0][0]'', JNum 1)]
   \<and> \<not> is_scalar (JList [JNum 1])
   \<and> flatten_dict (JList [JStr ''x'']) [] = Inl AttributeError
   \<and> spec_flatten (JList [JStr ''x'']) = [(''[0]'', JStr ''x'')]
   \<and> flatten_dict (JDict [('''', JDict [(''a'', JNum 1)])]) [] = Inr [(''a'', JNum 1)]
   \<and> spec_flatten (JDict [('''', JDict [(''a'', JNum 1)])]) = [(''.a'', JNum 1)]"
  by code_simp

section \<open>Verification: deletions of the stripper\<close>

lemma marker_positions_Nil [simp]: "marker_positions [] = []"
  by (simp add: marker_positions_def)



lemma marker_positions_bound: "j \<in> set (marker_positions xs) \<Longrightarrow> j < length xs"
  by (simp add: marker_positions_def)

lemma sorted_map_add: "sorted js \<Longrightarrow> sorted (map (\<lambda>j. i + j) js)" for js :: "nat list"
  by (induction js) auto







lemma sorted_reverse_Nil [simp]: "sorted_reverse [] = []"
  by (simp add: sorted_reverse_def)



lemma marker_keys_Nil [simp]: "marker_keys [] = []"
  by (simp add: marker_keys_def)

lemma marker_keys_Cons [simp]:
  "marker_keys ((k, v) # rest) =
     (if v = JStr MISSING_FIELD then k # marker_keys rest else marker_keys rest)"
  by (simp add: marker_keys_def)







section \<open>Verification: the aggregator across runs\<close>









end
